theory Spec2Isabelle
  imports Complex_Main "HOL-Library.Sublist"
begin

section \<open>JavaScript strings\<close>

text \<open>
  A JavaScript string is a sequence of code units. The model uses \<^typ>\<open>string\<close>, so it
  covers the texts whose code units lie in the range 0 to 255 (ASCII and Latin-1); the
  character classes below are the JavaScript ones cut down to that range.
  \<open>length\<close> counts code units, as \<open>.length\<close> does.
\<close>

text \<open>\<open>String.prototype.includes\<close>: does \<open>k\<close> occur in \<open>s\<close> at some position?\<close>

fun includes_str :: "string \<Rightarrow> string \<Rightarrow> bool" where
  "includes_str [] k = (k = [])"
| "includes_str (c # cs) k = (prefix k (c # cs) \<or> includes_str cs k)"

text \<open>
  White space and line terminators stripped by \<open>String.prototype.trim\<close>:
  TAB, LF, VT, FF, CR, SPACE and NO-BREAK SPACE.
\<close>

definition isWhiteSpace :: "char \<Rightarrow> bool" where
  "isWhiteSpace c = ((of_char c :: nat) \<in> {9, 10, 11, 12, 13, 32, 160})"

definition trim :: "string \<Rightarrow> string" where
  "trim s = rev (dropWhile isWhiteSpace (rev (dropWhile isWhiteSpace s)))"

text \<open>
  \<open>String.prototype.toLowerCase\<close>, one code unit at a time: A to Z, and the Latin-1
  capitals 0xC0 to 0xDE except the multiplication sign 0xD7, move up by 32.
\<close>

definition toLowerChar :: "char \<Rightarrow> char" where
  "toLowerChar c =
     (let n = (of_char c :: nat)
      in if (65 \<le> n \<and> n \<le> 90) \<or> (192 \<le> n \<and> n \<le> 222 \<and> n \<noteq> 215)
         then char_of (n + 32) else c)"

definition toLowerCase :: "string \<Rightarrow> string" where
  "toLowerCase s = map toLowerChar s"

section \<open>Regular expressions of \<open>extractSql\<close>\<close>

text \<open>
  \<open>text.match(re)\<close> without the \<open>g\<close> flag tries the pattern at every start index from
  left to right and returns the first success: the whole match (index 0 of the result)
  and the capture groups (index 1 is \<open>undefined\<close> when the pattern has no group).
\<close>

record regex_match =
  whole :: string
  group1 :: "string option"

fun firstMatch :: "(string \<Rightarrow> regex_match option) \<Rightarrow> string \<Rightarrow> regex_match option" where
  "firstMatch m [] = m []"
| "firstMatch m (c # cs) =
     (case m (c # cs) of Some r \<Rightarrow> Some r | None \<Rightarrow> firstMatch m cs)"

definition fenceOpen :: string where
  "fenceOpen = ''```sql\<newline>''"

definition fenceClose :: string where
  "fenceClose = ''\<newline>```''"

text \<open>
  The lazy group \<open>([\s\S]*?)\<close> followed by the literal \<open>k\<close>: the group takes no more
  characters than needed to let \<open>k\<close> match; any character may be taken.
  The result is the captured text.
\<close>

fun lazyAnyUntil :: "string \<Rightarrow> string \<Rightarrow> string option" where
  "lazyAnyUntil k [] = (if prefix k [] then Some [] else None)"
| "lazyAnyUntil k (c # cs) =
     (if prefix k (c # cs) then Some []
      else map_option ((#) c) (lazyAnyUntil k cs))"

text \<open>The pattern \<open>/```sql\n([\s\S]*?)\n```/\<close> tried at the start of \<open>s\<close>.\<close>

definition matchFencedAt :: "string \<Rightarrow> regex_match option" where
  "matchFencedAt s =
     (if prefix fenceOpen s
      then (case lazyAnyUntil fenceClose (drop (length fenceOpen) s) of
              Some cap \<Rightarrow> Some \<lparr>whole = fenceOpen @ cap @ fenceClose, group1 = Some cap\<rparr>
            | None \<Rightarrow> None)
      else None)"

text \<open>
  Case-insensitive matching without the \<open>u\<close> flag compares canonical code units:
  the upper-case form of a code unit when that is one code unit, except that a code unit
  from 128 on is never mapped below 128. In the Latin-1 range: a to z and 0xE0 to 0xFE
  (except the division sign 0xF7) move down by 32, the micro sign goes to U+039C and
  y with diaeresis to U+0178; sharp s upper-cases to two code units and stays.
\<close>

definition canonicalize :: "char \<Rightarrow> nat" where
  "canonicalize c =
     (let n = (of_char c :: nat)
      in if 97 \<le> n \<and> n \<le> 122 then n - 32
         else if n = 181 then 924
         else if 224 \<le> n \<and> n \<le> 254 \<and> n \<noteq> 247 then n - 32
         else if n = 255 then 376
         else n)"

definition ciPrefix :: "string \<Rightarrow> string \<Rightarrow> bool" where
  "ciPrefix k s =
     (length k \<le> length s \<and> map canonicalize (take (length k) s) = map canonicalize k)"

text \<open>The dot matches every code unit except the line terminators LF and CR.\<close>

definition isLineTerminator :: "char \<Rightarrow> bool" where
  "isLineTerminator c = ((of_char c :: nat) \<in> {10, 13})"

text \<open>
  The lazy \<open>.*?\<close> followed by the case-insensitive literal \<open>k\<close>: the result is the text
  consumed, the matched occurrence of \<open>k\<close> included. The match fails at this start index
  when a line terminator or the end of the text comes before \<open>k\<close>.
\<close>

fun lazyDotUntil :: "string \<Rightarrow> string \<Rightarrow> string option" where
  "lazyDotUntil k [] = (if ciPrefix k [] then Some [] else None)"
| "lazyDotUntil k (c # cs) =
     (if ciPrefix k (c # cs) then Some (take (length k) (c # cs))
      else if isLineTerminator c then None
      else map_option ((#) c) (lazyDotUntil k cs))"

text \<open>The pattern \<open>/SELECT .*?FROM/i\<close> tried at the start of \<open>s\<close>. It has no group.\<close>

definition matchInlineAt :: "string \<Rightarrow> regex_match option" where
  "matchInlineAt s =
     (if ciPrefix ''SELECT '' s
      then (case lazyDotUntil ''FROM'' (drop 7 s) of
              Some m \<Rightarrow> Some \<lparr>whole = take 7 s @ m, group1 = None\<rparr>
            | None \<Rightarrow> None)
      else None)"

section \<open>The helper functions\<close>

text \<open>
  \<open>extractSql(text)\<close>: \<open>null\<close> is \<open>None\<close>. The empty text is falsy and gives \<open>null\<close>.
  \<open>sqlMatch[1] || sqlMatch[0]\<close> takes group 1 unless it is \<open>undefined\<close> or the empty
  string, and the whole match otherwise.
\<close>

definition extractSql :: "string \<Rightarrow> string option" where
  "extractSql text =
     (if text = [] then None
      else
        (case (case firstMatch matchFencedAt text of
                 Some m \<Rightarrow> Some m
               | None \<Rightarrow> firstMatch matchInlineAt text) of
           None \<Rightarrow> None
         | Some sqlMatch \<Rightarrow>
             (case group1 sqlMatch of
                Some g \<Rightarrow> if g \<noteq> [] then Some g else Some (whole sqlMatch)
              | None \<Rightarrow> Some (whole sqlMatch))))"

text \<open>
  \<open>suggestChartType(insights)\<close>: the argument is the content of the second completion,
  a string or \<open>null\<close>; \<open>null\<close> and the empty string are falsy.
\<close>

definition suggestChartType :: "string option \<Rightarrow> string" where
  "suggestChartType insights =
     (case insights of
        None \<Rightarrow> ''bar''
      | Some t \<Rightarrow>
          if t = [] then ''bar''
          else if includes_str t ''trend'' then ''line''
          else if includes_str t ''compare'' then ''bar''
          else if includes_str t ''percentage'' \<or> includes_str t ''proportion'' then ''pie''
          else ''bar'')"

section \<open>The request handler and its collaborators\<close>

text \<open>
  An exception or a rejected store call carries an error object; the handler reads its
  \<open>message\<close> and its \<open>stack\<close>.
\<close>

datatype jserror = JsError (message: string) (stack: string)

text \<open>
  The \<open>question\<close> field of the parsed JSON body. \<open>JUndefined\<close> is the absent field;
  \<open>JObject\<close> stands for every object and array. A number is kept as far as the handler
  looks at it: \<open>!question\<close> only asks whether it is zero.
\<close>

datatype jsnumber = Zero | NonZero

datatype jsvalue =
  JUndefined | JNull | JBool bool | JNumber jsnumber | JString string | JObject

record request =
  question :: jsvalue

text \<open>One row of \<open>PRAGMA table_info\<close>, and what \<open>getSchemaInfo\<close> keeps of it.\<close>

record pragma_row =
  cid :: nat
  name :: string
  decl_type :: string
  notnull :: bool
  dflt_value :: "string option"
  pk :: nat

record column =
  col_name :: string
  col_type :: string

record table_schema =
  table :: string
  columns :: "column list"

text \<open>
  The two transcripts sent to the completion service. Each is a fixed system instruction
  around the serialised schema (first call) or the serialised rows (second call),
  followed by the question as the user message; the model keeps the parts that vary.
\<close>

datatype 'r prompt =
  SqlGeneration "table_schema list" string
| InsightGeneration "'r list" string

text \<open>
  The collaborators of one request. The store answers the three \<open>db.all\<close> call sites:
  the catalog query on \<open>sqlite_master\<close> (the table names, in catalog order),
  \<open>PRAGMA table_info\<close> for a table name, and the generated SQL. The \<open>PRAGMA\<close>
  queries are issued outside \<open>db.serialize\<close>, so their callbacks run as the queries
  complete, in any order: \<open>completion_time\<close> is the moment the callback of a table
  runs. The completion service
  throws (\<open>Inl\<close>) or returns the content of the first choice, which may be \<open>null\<close>.
  \<open>development\<close> is \<open>process.env.NODE_ENV === 'development'\<close>; \<open>error_stack\<close> is the
  stack trace the runtime attaches to an error created in the handler with a given
  message.
\<close>

record 'r env =
  catalog :: "jserror + string list"
  table_info :: "string \<Rightarrow> jserror + pragma_row list"
  completion_time :: "string \<Rightarrow> nat"
  run_query :: "string \<Rightarrow> jserror + 'r list"
  completion :: "'r prompt \<Rightarrow> jserror + string option"
  development :: bool
  error_stack :: "string \<Rightarrow> string"

text \<open>What one request does to the outside, in order.\<close>

datatype 'r event =
  CatalogQuery
| TableInfoQuery string
| ExecuteQuery string
| CompletionCall "'r prompt"
| ConsoleError string jserror

text \<open>The JSON bodies the handler sends, and the response with its status code.\<close>

datatype 'r body =
  ErrorBody (error: string) (details: "string option")
| AnalysisBody (sql: "string option") (data: "'r list") (insights: "string option")
    (chartType: "string option")

datatype 'r response = Response (status: nat) (body: "'r body")

subsection \<open>\<open>getSchemaInfo\<close>\<close>

text \<open>
  The promise settles once: a later \<open>resolve\<close> or \<open>reject\<close> changes nothing.
\<close>

datatype 'a promise = Pending | Fulfilled 'a | Rejected jserror

fun settle :: "'a promise \<Rightarrow> 'a promise \<Rightarrow> 'a promise" where
  "settle Pending q = q"
| "settle p q = p"

text \<open>
  The callback of \<open>PRAGMA table_info\<close> for one table, on the state
  (\<open>schemaInfo\<close>, \<open>tablesProcessed\<close>, promise); \<open>n\<close> is \<open>tables.length\<close>.
\<close>

fun tableCallback ::
  "nat \<Rightarrow> string \<Rightarrow> jserror + pragma_row list \<Rightarrow>
   table_schema list \<times> nat \<times> table_schema list promise \<Rightarrow>
   table_schema list \<times> nat \<times> table_schema list promise" where
  "tableCallback n t (Inl err) (schemaInfo, tablesProcessed, p) =
     (schemaInfo, tablesProcessed, settle p (Rejected err))"
| "tableCallback n t (Inr cols) (schemaInfo, tablesProcessed, p) =
     (let schemaInfo' = schemaInfo @
            [\<lparr>table = t,
              columns = map (\<lambda>col. \<lparr>col_name = name col, col_type = decl_type col\<rparr>) cols\<rparr>];
          tablesProcessed' = tablesProcessed + 1
      in (schemaInfo', tablesProcessed',
          if tablesProcessed' = n then settle p (Fulfilled schemaInfo') else p))"

text \<open>
  \<open>forEach\<close> issues one \<open>PRAGMA\<close> query per table, in catalog order; the callbacks
  run in the order of their completion times (two that complete together, in the order
  of the queries). The promise is \<open>Pending\<close> at the end exactly when nothing will settle
  it any more: no callback is left to run.
\<close>

definition getSchemaInfo :: "'r env \<Rightarrow> table_schema list promise \<times> 'r event list" where
  "getSchemaInfo env =
     (case catalog env of
        Inl err \<Rightarrow> (Rejected err, [CatalogQuery])
      | Inr tables \<Rightarrow>
          (case fold (\<lambda>t. tableCallback (length tables) t (table_info env t))
                  (sort_key (completion_time env) tables) ([], 0, Pending) of
             (schemaInfo, tablesProcessed, p) \<Rightarrow>
               (p, CatalogQuery # map TableInfoQuery tables)))"

subsection \<open>\<open>POST /api/analyze\<close>\<close>

text \<open>
  The \<open>catch\<close> block: log the error, answer 500 with its message, and with its stack in
  development mode only (an \<open>undefined\<close> field is left out of the JSON body).
\<close>

definition fault :: "'r env \<Rightarrow> jserror \<Rightarrow> 'r event list \<Rightarrow> 'r response option \<times> 'r event list" where
  "fault env e tr =
     (Some (Response 500 (ErrorBody (message e)
              (if development env then Some (stack e) else None))),
      tr @ [ConsoleError ''Error:'' e])"

definition newError :: "'r env \<Rightarrow> string \<Rightarrow> jserror" where
  "newError env msg = JsError msg (error_stack env msg)"

text \<open>
  \<open>!question || question.trim().length < 3\<close>. A truthy value that is not a string has
  no \<open>trim\<close> method: calling it throws a \<open>TypeError\<close>.
\<close>

datatype validation = Invalid | Throws string | Valid string

definition validateQuestion :: "jsvalue \<Rightarrow> validation" where
  "validateQuestion q =
     (case q of
        JUndefined \<Rightarrow> Invalid
      | JNull \<Rightarrow> Invalid
      | JBool b \<Rightarrow> if b then Throws ''question.trim is not a function'' else Invalid
      | JNumber n \<Rightarrow>
          (case n of Zero \<Rightarrow> Invalid | NonZero \<Rightarrow> Throws ''question.trim is not a function'')
      | JString s \<Rightarrow> if s = [] \<or> length (trim s) < 3 then Invalid else Valid s
      | JObject \<Rightarrow> Throws ''question.trim is not a function'')"

text \<open>
  Lines 141 to 153: the generated SQL is run only when it is truthy and its lower-case
  form includes \<open>select\<close>. A store error is logged and replaced by a new error.
\<close>

definition conditionalExecution ::
  "'r env \<Rightarrow> string option \<Rightarrow> (jserror + 'r list) \<times> 'r event list" where
  "conditionalExecution env generatedSql =
     (case generatedSql of
        None \<Rightarrow> (Inr [], [])
      | Some q \<Rightarrow>
          if q \<noteq> [] \<and> includes_str (toLowerCase q) ''select''
          then (case run_query env q of
                  Inl err \<Rightarrow>
                    (Inl (newError env ''Error executing query''),
                     [ExecuteQuery q, ConsoleError ''SQL Error:'' err])
                | Inr rows \<Rightarrow> (Inr rows, [ExecuteQuery q]))
          else (Inr [], []))"

text \<open>Lines 155 to 176: the second completion and the final response.\<close>

definition insightGeneration ::
  "'r env \<Rightarrow> string \<Rightarrow> string option \<Rightarrow> 'r list \<Rightarrow> 'r event list \<Rightarrow>
   'r response option \<times> 'r event list" where
  "insightGeneration env q generatedSql rows tr =
     (let p = InsightGeneration rows q; tr' = tr @ [CompletionCall p]
      in case completion env p of
           Inl e \<Rightarrow> fault env e tr'
         | Inr ins \<Rightarrow>
             (Some (Response 200
                (AnalysisBody generatedSql rows ins (Some (suggestChartType ins)))), tr'))"

text \<open>Lines 126 to 153: the refusal check, the extraction and the execution.\<close>

definition afterSqlResponse ::
  "'r env \<Rightarrow> string \<Rightarrow> string \<Rightarrow> 'r event list \<Rightarrow> 'r response option \<times> 'r event list" where
  "afterSqlResponse env q responseText tr =
     (if includes_str responseText ''Please ask about''
      then (Some (Response 200 (AnalysisBody None [] (Some responseText) None)), tr)
      else
        (let generatedSql = extractSql responseText
         in case conditionalExecution env generatedSql of
              (Inl e, evs) \<Rightarrow> fault env e (tr @ evs)
            | (Inr rows, evs) \<Rightarrow> insightGeneration env q generatedSql rows (tr @ evs)))"

text \<open>
  Lines 110 to 126: the first completion. A \<open>null\<close> content makes
  \<open>responseText.includes\<close> throw a \<open>TypeError\<close>.
\<close>

definition sqlGeneration ::
  "'r env \<Rightarrow> string \<Rightarrow> table_schema list \<Rightarrow> 'r event list \<Rightarrow>
   'r response option \<times> 'r event list" where
  "sqlGeneration env q schema tr =
     (let p = SqlGeneration schema q; tr' = tr @ [CompletionCall p]
      in case completion env p of
           Inl e \<Rightarrow> fault env e tr'
         | Inr None \<Rightarrow>
             fault env (newError env ''Cannot read properties of null (reading 'includes')'') tr'
         | Inr (Some responseText) \<Rightarrow> afterSqlResponse env q responseText tr')"

text \<open>
  The handler. The result is the response, \<open>None\<close> when the request is never answered
  (the handler waits for a promise that never settles), and the trace of events.
\<close>

definition analyze :: "'r env \<Rightarrow> request \<Rightarrow> 'r response option \<times> 'r event list" where
  "analyze env req =
     (case validateQuestion (question req) of
        Invalid \<Rightarrow>
          (Some (Response 400 (ErrorBody ''Please ask a complete business question'' None)), [])
      | Throws msg \<Rightarrow> fault env (newError env msg) []
      | Valid q \<Rightarrow>
          (case getSchemaInfo env of
             (Pending, tr) \<Rightarrow> (None, tr)
           | (Rejected e, tr) \<Rightarrow> fault env e tr
           | (Fulfilled schema, tr) \<Rightarrow> sqlGeneration env q schema tr))"

section \<open>The store at start-up\<close>

text \<open>
  \<open>initializeDatabase\<close> sends eight statements to SQLite, one after the other
  (\<open>db.serialize\<close>). The store below has what these statements depend on: for every
  table its declared columns, the position of its \<open>PRIMARY KEY\<close> column if it has one,
  and its rows in insertion order.
\<close>

datatype sqlval = SqlNull | SqlInt int | SqlReal rat | SqlText string

record sqltable =
  col_decls :: "(string \<times> string) list"
  primary_key :: "nat option"
  table_rows :: "sqlval list list"

type_synonym store = "string \<rightharpoonup> sqltable"

text \<open>\<open>CREATE TABLE IF NOT EXISTS\<close>: nothing happens when the table exists.\<close>

definition createTableIfNotExists ::
  "string \<Rightarrow> (string \<times> string) list \<Rightarrow> nat option \<Rightarrow> store \<Rightarrow> store" where
  "createTableIfNotExists t cols key s =
     (case s t of
        Some existing \<Rightarrow> s
      | None \<Rightarrow> s(t \<mapsto> \<lparr>col_decls = cols, primary_key = key, table_rows = []\<rparr>))"

text \<open>
  \<open>INSERT OR IGNORE\<close> skips a row that breaks a uniqueness constraint and inserts
  every other row. The only such constraint in this schema is the primary key: a row
  conflicts when a stored row has the same non-null key. A table without a key has no
  constraint to break.
\<close>

fun insertRowOrIgnore :: "nat option \<Rightarrow> sqlval list list \<Rightarrow> sqlval list \<Rightarrow> sqlval list list" where
  "insertRowOrIgnore None existing r = existing @ [r]"
| "insertRowOrIgnore (Some k) existing r =
     (if k < length r \<and> r ! k \<noteq> SqlNull \<and> r ! k \<in> set (map (\<lambda>r'. r' ! k) existing)
      then existing else existing @ [r])"

text \<open>
  A statement that fails (no such table, or a row with the wrong number of values)
  changes nothing; \<open>db.run\<close> is called without a callback.
\<close>

definition insertOrIgnore :: "string \<Rightarrow> sqlval list list \<Rightarrow> store \<Rightarrow> store" where
  "insertOrIgnore t new s =
     (case s t of
        None \<Rightarrow> s
      | Some tbl \<Rightarrow>
          if list_all (\<lambda>r. length r = length (col_decls tbl)) new
          then s(t \<mapsto> tbl\<lparr>table_rows := foldl (insertRowOrIgnore (primary_key tbl))
                                       (table_rows tbl) new\<rparr>)
          else s)"

definition seedCustomers :: "sqlval list list" where
  "seedCustomers =
     [[SqlText ''C001'', SqlText ''John Smith'', SqlText ''john@example.com'',
       SqlText ''North'', SqlText ''2023-01-15''],
      [SqlText ''C002'', SqlText ''Sarah Johnson'', SqlText ''sarah@example.com'',
       SqlText ''South'', SqlText ''2023-02-20'']]"

definition seedProducts :: "sqlval list list" where
  "seedProducts =
     [[SqlText ''P001'', SqlText ''Wireless Headphones'', SqlText ''Electronics'',
       SqlReal (9999 / 100), SqlReal 45],
      [SqlText ''P002'', SqlText ''Smart Watch'', SqlText ''Electronics'',
       SqlReal (19999 / 100), SqlReal 120],
      [SqlText ''P003'', SqlText ''Cotton T-Shirt'', SqlText ''Apparel'',
       SqlReal (2999 / 100), SqlReal (25 / 2)]]"

definition seedOrders :: "sqlval list list" where
  "seedOrders =
     [[SqlText ''O001'', SqlText ''C001'', SqlText ''2023-05-15'',
       SqlReal (12998 / 100), SqlText ''Completed''],
      [SqlText ''O002'', SqlText ''C002'', SqlText ''2023-05-16'',
       SqlReal (19999 / 100), SqlText ''Completed'']]"

definition seedOrderItems :: "sqlval list list" where
  "seedOrderItems =
     [[SqlText ''O001'', SqlText ''P001'', SqlInt 1, SqlReal (9999 / 100)],
      [SqlText ''O001'', SqlText ''P003'', SqlInt 1, SqlReal (2999 / 100)],
      [SqlText ''O002'', SqlText ''P002'', SqlInt 1, SqlReal (19999 / 100)]]"

definition initializeDatabase :: "store \<Rightarrow> store" where
  "initializeDatabase s0 =
     (let s1 = createTableIfNotExists ''customers''
                 [(''id'', ''TEXT''), (''name'', ''TEXT''), (''email'', ''TEXT''),
                  (''region'', ''TEXT''), (''signup_date'', ''TEXT'')] (Some 0) s0;
          s2 = createTableIfNotExists ''products''
                 [(''id'', ''TEXT''), (''name'', ''TEXT''), (''category'', ''TEXT''),
                  (''price'', ''REAL''), (''cost'', ''REAL'')] (Some 0) s1;
          s3 = createTableIfNotExists ''orders''
                 [(''id'', ''TEXT''), (''customer_id'', ''TEXT''), (''order_date'', ''TEXT''),
                  (''total_amount'', ''REAL''), (''status'', ''TEXT'')] (Some 0) s2;
          s4 = createTableIfNotExists ''order_items''
                 [(''order_id'', ''TEXT''), (''product_id'', ''TEXT''),
                  (''quantity'', ''INTEGER''), (''price'', ''REAL'')] None s3;
          s5 = insertOrIgnore ''customers'' seedCustomers s4;
          s6 = insertOrIgnore ''products'' seedProducts s5;
          s7 = insertOrIgnore ''orders'' seedOrders s6
      in insertOrIgnore ''order_items'' seedOrderItems s7)"

section \<open>Example collaborators\<close>

text \<open>
  A store with the single table \<open>customers\<close>, a completion service that answers the
  first call with a given text and the second with a fixed insight, and a store that
  answers the generated SQL with a given outcome.
\<close>

definition exampleEnv :: "string \<Rightarrow> (jserror + sqlval list list) \<Rightarrow> sqlval list env" where
  "exampleEnv sqlText outcome =
     \<lparr>catalog = Inr [''customers''],
      table_info = (\<lambda>t. Inr [\<lparr>cid = 0, name = ''id'', decl_type = ''TEXT'', notnull = False,
                                dflt_value = None, pk = 1\<rparr>]),
      completion_time = (\<lambda>t. 0),
      run_query = (\<lambda>q. outcome),
      completion = (\<lambda>p. case p of
                          SqlGeneration schema q \<Rightarrow> Inr (Some sqlText)
                        | InsightGeneration rows q \<Rightarrow> Inr (Some ''Sales show an upward trend'')),
      development = False,
      error_stack = (\<lambda>msg. ''Error: '' @ msg)\<rparr>"

definition exampleQuestion :: request where
  "exampleQuestion = \<lparr>question = JString ''What are total sales by region?''\<rparr>"

definition exampleSchema :: "table_schema list" where
  "exampleSchema =
     [\<lparr>table = ''customers'', columns = [\<lparr>col_name = ''id'', col_type = ''TEXT''\<rparr>]\<rparr>]"

definition refusalReply :: string where
  "refusalReply = ''Please ask about sales, products, or customers.''"

definition fencedReply :: string where
  "fencedReply = ''```sql\<newline>SELECT nme FROM customers\<newline>```''"

definition storeError :: jserror where
  "storeError = JsError ''SQLITE_ERROR: no such column: nme'' ''Error: SQLITE_ERROR''"

text \<open>
  The same with two tables, where the \<open>PRAGMA\<close> query of the second table completes
  before that of the first.
\<close>

definition twoTableEnv :: "sqlval list env" where
  "twoTableEnv =
     (exampleEnv refusalReply (Inr []))
       \<lparr>catalog := Inr [''customers'', ''orders''],
        completion_time := (\<lambda>t. if t = ''customers'' then 2 else 1)\<rparr>"

section \<open>Substrings\<close>

text \<open>\<open>includes\<close> is the substring test: \<open>k\<close> occurs in \<open>s\<close> between some prefix and suffix.\<close>

lemma includes_str_iff_sublist: "includes_str s k \<longleftrightarrow> sublist k s"
  by (induction s) (simp_all add: sublist_Cons_right)

lemma trim_Nil [simp]: "trim [] = []"
  by (simp add: trim_def)

text \<open>
  The \<open>select\<close> check of the handler holds exactly when some part of the text reads
  \<open>select\<close> once lower-cased.
\<close>

lemma select_any_case:
  "includes_str (toLowerCase s) ''select'' \<longleftrightarrow>
     (\<exists>m. sublist m s \<and> toLowerCase m = ''select'')"
proof
  assume "includes_str (toLowerCase s) ''select''"
  then have "sublist ''select'' (map toLowerChar s)"
    by (simp add: includes_str_iff_sublist toLowerCase_def)
  then have "\<exists>m. sublist m s \<and> ''select'' = map toLowerChar m"
    by (rule sublist_map_rightE)
  then obtain m where "sublist m s" "''select'' = map toLowerChar m"
    by (elim exE conjE)
  then show "\<exists>m. sublist m s \<and> toLowerCase m = ''select''"
    by (auto simp: toLowerCase_def)
next
  assume "\<exists>m. sublist m s \<and> toLowerCase m = ''select''"
  then obtain m where "sublist m s" and m: "map toLowerChar m = ''select''"
    by (auto simp: toLowerCase_def)
  then obtain p t where "s = p @ m @ t" by (auto simp: sublist_def)
  then have "map toLowerChar s = map toLowerChar p @ map toLowerChar m @ map toLowerChar t"
    by simp
  then have "sublist (map toLowerChar m) (map toLowerChar s)" by (metis sublist_appendI)
  with m show "includes_str (toLowerCase s) ''select''"
    by (simp add: includes_str_iff_sublist toLowerCase_def)
qed

section \<open>What the handler calls, and when\<close>

text \<open>The schema introspection queries the catalog and the table descriptions only.\<close>

lemma getSchemaInfo_trace:
  "getSchemaInfo env = (p, tr) \<Longrightarrow> set tr \<subseteq> insert CatalogQuery (range TableInfoQuery)"
  by (auto simp: getSchemaInfo_def split: sum.splits prod.splits)

text \<open>
  The queries go out in catalog order; the schema lists the tables in the order their
  callbacks ran.
\<close>

lemma schema_in_completion_order:
  "getSchemaInfo twoTableEnv =
     (Fulfilled
        [\<lparr>table = ''orders'', columns = [\<lparr>col_name = ''id'', col_type = ''TEXT''\<rparr>]\<rparr>,
         \<lparr>table = ''customers'', columns = [\<lparr>col_name = ''id'', col_type = ''TEXT''\<rparr>]\<rparr>],
      [CatalogQuery, TableInfoQuery ''customers'', TableInfoQuery ''orders''])"
  by code_simp

lemma getSchemaInfo_run_query [simp]:
  "getSchemaInfo (env\<lparr>run_query := f\<rparr>) = getSchemaInfo env"
  by (simp add: getSchemaInfo_def split: sum.splits)

text \<open>
  The first completion is called once, with the question and the schema the introspection
  resolved to; so a trace that has the call tells how the request got there.
\<close>

lemma afterSqlResponse_no_sql_call:
  "CompletionCall (SqlGeneration schema q) \<in> set (snd (afterSqlResponse env q' text tr)) \<Longrightarrow>
   CompletionCall (SqlGeneration schema q) \<in> set tr"
  by (auto simp: afterSqlResponse_def conditionalExecution_def insightGeneration_def fault_def Let_def
      split: if_splits option.splits sum.splits prod.splits)

lemma sqlGeneration_sql_call:
  "CompletionCall (SqlGeneration schema q) \<in> set (snd (sqlGeneration env q' schema' tr)) \<Longrightarrow>
   CompletionCall (SqlGeneration schema q) \<in> set tr \<or> (schema = schema' \<and> q = q')"
  by (auto simp: sqlGeneration_def Let_def fault_def
      split: sum.splits option.splits dest: afterSqlResponse_no_sql_call)

lemma sql_call_reached:
  assumes "CompletionCall (SqlGeneration schema q) \<in> set (snd (analyze env req))"
  shows "validateQuestion (question req) = Valid q \<and> (\<exists>tr. getSchemaInfo env = (Fulfilled schema, tr))"
proof (cases "validateQuestion (question req)")
  case Invalid
  with assms show ?thesis by (simp add: analyze_def)
next
  case (Throws msg)
  with assms show ?thesis by (simp add: analyze_def fault_def)
next
  case (Valid q')
  obtain p tr where g: "getSchemaInfo env = (p, tr)" by (cases "getSchemaInfo env")
  from getSchemaInfo_trace[OF g] have notin: "CompletionCall (SqlGeneration schema q) \<notin> set tr"
    by auto
  show ?thesis
  proof (cases p)
    case Pending
    with assms Valid g notin show ?thesis by (simp add: analyze_def)
  next
    case (Rejected e)
    with assms Valid g notin show ?thesis by (simp add: analyze_def fault_def)
  next
    case (Fulfilled schema')
    with assms Valid g have "CompletionCall (SqlGeneration schema q) \<in> set (snd (sqlGeneration env q' schema' tr))"
      by (simp add: analyze_def)
    from sqlGeneration_sql_call[OF this] notin have "schema = schema' \<and> q = q'" by simp
    with Valid g Fulfilled show ?thesis by simp
  qed
qed

lemma refusal_staged:
  assumes "validateQuestion (question req) = Valid q"
      and "getSchemaInfo env = (Fulfilled schema, tr)"
      and "completion env (SqlGeneration schema q) = Inr (Some text)"
      and "includes_str text ''Please ask about''"
  shows "analyze env req =
     (Some (Response 200 (AnalysisBody None [] (Some text) None)),
      tr @ [CompletionCall (SqlGeneration schema q)])"
  using assms by (simp add: analyze_def sqlGeneration_def afterSqlResponse_def Let_def)

lemma analyze_staged:
  assumes "validateQuestion (question req) = Valid q"
      and "getSchemaInfo env = (Fulfilled schema, tr)"
      and "completion env (SqlGeneration schema q) = Inr (Some text)"
  shows "analyze env req =
           afterSqlResponse env q text (tr @ [CompletionCall (SqlGeneration schema q)])"
  using assms by (simp add: analyze_def sqlGeneration_def Let_def)

text \<open>
  The generated SQL reaches the store only behind the refusal check and the \<open>select\<close>
  check.
\<close>

lemma execute_reached:
  assumes "ExecuteQuery s \<in> set (snd (analyze env req))"
  shows "\<exists>q schema tr text.
           validateQuestion (question req) = Valid q \<and>
           getSchemaInfo env = (Fulfilled schema, tr) \<and>
           completion env (SqlGeneration schema q) = Inr (Some text) \<and>
           \<not> includes_str text ''Please ask about'' \<and>
           extractSql text = Some s \<and> s \<noteq> [] \<and> includes_str (toLowerCase s) ''select''"
proof (cases "validateQuestion (question req)")
  case Invalid
  with assms show ?thesis by (simp add: analyze_def)
next
  case (Throws msg)
  with assms show ?thesis by (simp add: analyze_def fault_def)
next
  case (Valid q)
  obtain p tr where g: "getSchemaInfo env = (p, tr)" by (cases "getSchemaInfo env")
  from getSchemaInfo_trace[OF g] have notin: "ExecuteQuery s \<notin> set tr" by auto
  show ?thesis
  proof (cases p)
    case Pending
    with assms Valid g notin show ?thesis by (simp add: analyze_def)
  next
    case (Rejected e)
    with assms Valid g notin show ?thesis by (simp add: analyze_def fault_def)
  next
    case (Fulfilled schema)
    with assms Valid g
    have m: "ExecuteQuery s \<in> set (snd (sqlGeneration env q schema tr))"
      by (simp add: analyze_def)
    show ?thesis
    proof (cases "completion env (SqlGeneration schema q)")
      case (Inl e)
      with m notin show ?thesis by (simp add: sqlGeneration_def Let_def fault_def)
    next
      case (Inr content)
      show ?thesis
      proof (cases content)
        case None
        with m notin Inr show ?thesis by (simp add: sqlGeneration_def Let_def fault_def)
      next
        case (Some reply)
        with m Inr have m': "ExecuteQuery s \<in>
            set (snd (afterSqlResponse env q reply (tr @ [CompletionCall (SqlGeneration schema q)])))"
          by (simp add: sqlGeneration_def Let_def)
        with notin have "\<not> includes_str reply ''Please ask about'' \<and>
           extractSql reply = Some s \<and> s \<noteq> [] \<and> includes_str (toLowerCase s) ''select''"
          by (auto simp: afterSqlResponse_def conditionalExecution_def insightGeneration_def
                fault_def Let_def split: if_splits option.splits sum.splits)
        with Valid g Fulfilled Inr Some show ?thesis by simp
      qed
    qed
  qed
qed

lemma store_error_staged:
  assumes "validateQuestion (question req) = Valid q"
      and "getSchemaInfo env = (Fulfilled schema, tr)"
      and "completion env (SqlGeneration schema q) = Inr (Some text)"
      and "\<not> includes_str text ''Please ask about''"
      and "extractSql text = Some s" and "s \<noteq> []"
      and "includes_str (toLowerCase s) ''select''"
      and "run_query env s = Inl err"
  shows "fst (analyze env req) =
           Some (Response 500 (ErrorBody ''Error executing query''
             (if development env then Some (error_stack env ''Error executing query'')
              else None)))"
  using assms
  by (simp add: analyze_def sqlGeneration_def afterSqlResponse_def conditionalExecution_def
        fault_def newError_def Let_def)

section \<open>The refusal path\<close>

text \<open>
  Claim C1. When the text of the SQL-generation completion contains the sentinel
  \<open>Please ask about\<close>, the handler answers 200 with \<open>insights\<close> the raw text,
  \<open>data\<close> the empty array, \<open>sql\<close> and \<open>chartType\<close> null; the store is not asked to
  run a query and the insight completion is not called.
\<close>

theorem refusal_short_circuit:
  assumes "CompletionCall (SqlGeneration schema q) \<in> set (snd (analyze env req))"
      and "completion env (SqlGeneration schema q) = Inr (Some responseText)"
      and "sublist ''Please ask about'' responseText"
  shows "fst (analyze env req) =
           Some (Response 200 (AnalysisBody None [] (Some responseText) None))
       \<and> (\<forall>s. ExecuteQuery s \<notin> set (snd (analyze env req)))
       \<and> (\<forall>rows q'. CompletionCall (InsightGeneration rows q') \<notin> set (snd (analyze env req)))"
proof -
  from sql_call_reached[OF assms(1)] obtain tr where
    v: "validateQuestion (question req) = Valid q" and
    g: "getSchemaInfo env = (Fulfilled schema, tr)" by blast
  from assms(3) have inc: "includes_str responseText ''Please ask about''"
    by (simp add: includes_str_iff_sublist)
  have a: "analyze env req =
     (Some (Response 200 (AnalysisBody None [] (Some responseText) None)),
      tr @ [CompletionCall (SqlGeneration schema q)])"
    by (rule refusal_staged[OF v g assms(2) inc])
  from getSchemaInfo_trace[OF g] show ?thesis unfolding a by auto
qed

theorem refusal_short_circuit_witness:
  "sublist ''Please ask about'' refusalReply
   \<and> fst (analyze (exampleEnv refusalReply (Inr [])) exampleQuestion) =
           Some (Response 200 (AnalysisBody None [] (Some refusalReply) None))
   \<and> (\<forall>s. ExecuteQuery s \<notin> set (snd (analyze (exampleEnv refusalReply (Inr [])) exampleQuestion)))
   \<and> (\<forall>rows q'. CompletionCall (InsightGeneration rows q') \<notin>
          set (snd (analyze (exampleEnv refusalReply (Inr [])) exampleQuestion)))"
proof -
  have h1: "CompletionCall (SqlGeneration exampleSchema ''What are total sales by region?'') \<in>
            set (snd (analyze (exampleEnv refusalReply (Inr [])) exampleQuestion))"
    by code_simp
  have h2: "completion (exampleEnv refusalReply (Inr []))
              (SqlGeneration exampleSchema ''What are total sales by region?'') =
            Inr (Some refusalReply)"
    by (simp add: exampleEnv_def)
  have h3: "sublist ''Please ask about'' refusalReply"
    by code_simp
  from refusal_short_circuit[OF h1 h2 h3] h3 show ?thesis by blast
qed

section \<open>The SQL extractor\<close>

text \<open>
  The search returns what the pattern gives at the first start index where it matches.
\<close>

lemma all_below: "list_all P [0..<n] \<Longrightarrow> \<forall>i<n. P i"
  by (simp add: list_all_iff)

lemma firstMatch_skip:
  assumes "\<forall>i<length pre. m (drop i (pre @ s)) = None"
  shows "firstMatch m (pre @ s) = firstMatch m s"
  using assms
proof (induction pre)
  case Nil
  then show ?case by simp
next
  case (Cons c pre)
  from Cons.prems have here: "m ((c # pre) @ s) = None" by fastforce
  have "\<forall>i<length pre. m (drop i (pre @ s)) = None"
  proof (intro allI impI)
    fix i assume "i < length pre"
    then have "Suc i < length (c # pre)" by simp
    with Cons.prems have "m (drop (Suc i) ((c # pre) @ s)) = None" by blast
    then show "m (drop i (pre @ s)) = None" by simp
  qed
  with Cons.IH have "firstMatch m (pre @ s) = firstMatch m s" by blast
  with here show ?case by simp
qed

lemma firstMatch_here:
  "m s = Some r \<Longrightarrow> firstMatch m s = Some r"
  by (cases s) simp_all

lemma firstMatch_Some:
  "firstMatch m s = Some r \<Longrightarrow> \<exists>i\<le>length s. m (drop i s) = Some r"
proof (induction s)
  case Nil
  then show ?case by simp
next
  case (Cons c cs)
  show ?case
  proof (cases "m (c # cs)")
    case None
    with Cons.prems have "firstMatch m cs = Some r" by simp
    with Cons.IH obtain i where "i \<le> length cs" "m (drop i cs) = Some r" by blast
    then have "Suc i \<le> length (c # cs) \<and> m (drop (Suc i) (c # cs)) = Some r" by simp
    then show ?thesis by blast
  next
    case (Some r')
    with Cons.prems have "m (drop 0 (c # cs)) = Some r" by simp
    then show ?thesis by blast
  qed
qed

text \<open>
  The first fenced block: when no opening fence starts before the one after \<open>pre\<close> and
  no closing fence starts inside \<open>interior\<close>, the extractor returns the interior if it
  is not empty, and the two fences otherwise.
\<close>

lemma lazyAnyUntil_here: "prefix k s \<Longrightarrow> lazyAnyUntil k s = Some []"
  by (cases s) simp_all

lemma lazyAnyUntil_first:
  assumes "\<forall>i<length xs. \<not> prefix k (drop i (xs @ k @ post))"
  shows "lazyAnyUntil k (xs @ k @ post) = Some xs"
  using assms
proof (induction xs)
  case Nil
  show ?case by (simp add: lazyAnyUntil_here)
next
  case (Cons c xs)
  from Cons.prems have here: "\<not> prefix k ((c # xs) @ k @ post)" by fastforce
  have "\<forall>i<length xs. \<not> prefix k (drop i (xs @ k @ post))"
  proof (intro allI impI)
    fix i assume "i < length xs"
    then have "Suc i < length (c # xs)" by simp
    with Cons.prems have "\<not> prefix k (drop (Suc i) ((c # xs) @ k @ post))" by blast
    then show "\<not> prefix k (drop i (xs @ k @ post))" by simp
  qed
  with Cons.IH have "lazyAnyUntil k (xs @ k @ post) = Some xs" by blast
  with here show ?case by simp
qed

lemma matchFencedAt_no_prefix: "\<not> prefix fenceOpen s \<Longrightarrow> matchFencedAt s = None"
  by (simp add: matchFencedAt_def)

lemma matchFencedAt_block:
  assumes "\<forall>i<length interior. \<not> prefix fenceClose (drop i (interior @ fenceClose @ post))"
  shows "matchFencedAt (fenceOpen @ interior @ fenceClose @ post) =
           Some \<lparr>whole = fenceOpen @ interior @ fenceClose, group1 = Some interior\<rparr>"
  using lazyAnyUntil_first[OF assms] by (simp add: matchFencedAt_def)

lemma firstMatch_fenced_block:
  assumes "\<forall>i<length pre. \<not> prefix fenceOpen (drop i (pre @ fenceOpen @ interior @ fenceClose @ post))"
      and "\<forall>i<length interior. \<not> prefix fenceClose (drop i (interior @ fenceClose @ post))"
  shows "firstMatch matchFencedAt (pre @ fenceOpen @ interior @ fenceClose @ post) =
           Some \<lparr>whole = fenceOpen @ interior @ fenceClose, group1 = Some interior\<rparr>"
proof -
  from assms(1) have "\<forall>i<length pre.
      matchFencedAt (drop i (pre @ fenceOpen @ interior @ fenceClose @ post)) = None"
    by (simp add: matchFencedAt_no_prefix)
  from firstMatch_skip[OF this]
  have "firstMatch matchFencedAt (pre @ fenceOpen @ interior @ fenceClose @ post) =
        firstMatch matchFencedAt (fenceOpen @ interior @ fenceClose @ post)" .
  also have "\<dots> = Some \<lparr>whole = fenceOpen @ interior @ fenceClose, group1 = Some interior\<rparr>"
    by (rule firstMatch_here[where m = matchFencedAt, OF matchFencedAt_block[OF assms(2)]])
  finally show ?thesis .
qed

lemma extractSql_first_block:
  assumes "\<forall>i<length pre. \<not> prefix fenceOpen (drop i (pre @ fenceOpen @ interior @ fenceClose @ post))"
      and "\<forall>i<length interior. \<not> prefix fenceClose (drop i (interior @ fenceClose @ post))"
  shows "extractSql (pre @ fenceOpen @ interior @ fenceClose @ post) =
           (if interior \<noteq> [] then Some interior else Some (fenceOpen @ fenceClose))"
  using firstMatch_fenced_block[OF assms] by (simp add: extractSql_def fenceOpen_def)

lemma fenced_select_1: "extractSql ''```sql\<newline>SELECT 1\<newline>```'' = Some ''SELECT 1''"
  by code_simp

lemma no_pattern_no_sql:
  "firstMatch matchFencedAt text = None \<Longrightarrow> firstMatch matchInlineAt text = None \<Longrightarrow>
   extractSql text = None"
  by (simp add: extractSql_def)

text \<open>
  The inline form: when the fenced pattern does not match, a result is a part of the
  text that begins with \<open>SELECT\<close> and a space and ends with \<open>FROM\<close>, in any case.
\<close>

lemma ciPrefix_take: "ciPrefix k s \<Longrightarrow> ciPrefix k (take (length k) s)"
  by (simp add: ciPrefix_def)

lemma lazyDotUntil_Some:
  "lazyDotUntil k s = Some m \<Longrightarrow>
   prefix m s \<and> length k \<le> length m \<and>
   map canonicalize (drop (length m - length k) m) = map canonicalize k"
proof (induction s arbitrary: m)
  case Nil
  then show ?case by (simp add: ciPrefix_def split: if_splits)
next
  case (Cons c cs)
  show ?case
  proof (cases "ciPrefix k (c # cs)")
    case True
    with Cons.prems have m: "m = take (length k) (c # cs)" by simp
    from True have "length k \<le> length (c # cs)"
      and "map canonicalize (take (length k) (c # cs)) = map canonicalize k"
      by (simp_all add: ciPrefix_def)
    with m show ?thesis by (simp add: take_is_prefix min_def)
  next
    case False
    with Cons.prems obtain m' where m': "lazyDotUntil k cs = Some m'" and m: "m = c # m'"
      by (auto split: if_splits)
    from Cons.IH[OF m'] have ih: "prefix m' cs" "length k \<le> length m'"
      "map canonicalize (drop (length m' - length k) m') = map canonicalize k" by simp_all
    from ih(2) have "drop (length (c # m') - length k) (c # m') = drop (length m' - length k) m'"
      by (simp add: Suc_diff_le)
    with ih m show ?thesis by simp
  qed
qed

lemma matchInlineAt_Some:
  assumes "matchInlineAt s = Some r"
  shows "prefix (whole r) s \<and> group1 r = None \<and> ciPrefix ''SELECT '' (whole r) \<and>
         map canonicalize (drop (length (whole r) - 4) (whole r)) = map canonicalize ''FROM''"
proof -
  from assms have sel: "ciPrefix ''SELECT '' s"
    by (simp add: matchInlineAt_def split: if_splits)
  with assms obtain m where m: "lazyDotUntil ''FROM'' (drop 7 s) = Some m"
    and r: "r = \<lparr>whole = take 7 s @ m, group1 = None\<rparr>"
    by (auto simp: matchInlineAt_def split: option.splits)
  have four: "length ''FROM'' = 4" by simp
  from lazyDotUntil_Some[OF m] have p: "prefix m (drop 7 s)" and l: "4 \<le> length m"
    by simp_all
  from lazyDotUntil_Some[OF m]
  have f: "map canonicalize (drop (length m - 4) m) = map canonicalize ''FROM''"
    unfolding four by blast
  from sel have len: "7 \<le> length s" by (simp add: ciPrefix_def)
  from p obtain rest where "drop 7 s = m @ rest" by (auto simp: prefix_def)
  then have "s = take 7 s @ m @ rest" by (metis append_take_drop_id)
  then have pre: "prefix (take 7 s @ m) s" by (metis append.assoc prefixI)
  from sel len have c: "ciPrefix ''SELECT '' (take 7 s @ m)" by (simp add: ciPrefix_def)
  from len l have "drop (length (take 7 s @ m) - 4) (take 7 s @ m) = drop (length m - 4) m"
    by simp
  with f pre c r show ?thesis by simp
qed

lemma sublist_drop_prefix: "prefix r (drop i s) \<Longrightarrow> sublist r s"
  by (metis append_take_drop_id prefix_def sublist_appendI)

lemma inline_result_shape:
  assumes "firstMatch matchFencedAt text = None" and "extractSql text = Some r"
  shows "sublist r text \<and> ciPrefix ''SELECT '' r \<and>
         map canonicalize (drop (length r - 4) r) = map canonicalize ''FROM''"
proof -
  from assms obtain sqlMatch where fm: "firstMatch matchInlineAt text = Some sqlMatch"
    and res: "r = (case group1 sqlMatch of
                     Some g \<Rightarrow> if g \<noteq> [] then g else whole sqlMatch
                   | None \<Rightarrow> whole sqlMatch)"
    by (auto simp: extractSql_def split: if_splits option.splits)
  from firstMatch_Some[OF fm] obtain i where "matchInlineAt (drop i text) = Some sqlMatch"
    by blast
  from matchInlineAt_Some[OF this] res show ?thesis
    by (auto intro: sublist_drop_prefix)
qed

text \<open>
  Claim C2 says that the text \<open>SELECT a FROM b\<close>, which has no fenced block, gives
  \<open>SELECT a FROM b\<close>. The inline pattern ends at \<open>FROM\<close>: the extractor returns the
  whole match, which is \<open>SELECT a FROM\<close>, without the table name.
\<close>

theorem inline_match_stops_at_from:
  "extractSql ''SELECT a FROM b'' = Some ''SELECT a FROM''
   \<and> extractSql ''SELECT a FROM b'' \<noteq> Some ''SELECT a FROM b''"
  by code_simp

section \<open>Conditional execution\<close>

text \<open>
  Claim C3. When nothing was extracted from the completion text, or the extracted text
  does not contain \<open>select\<close> in any case, the store is not asked to run a query, and a
  200 response has the empty array as \<open>data\<close>.
\<close>

lemma afterSqlResponse_no_execution:
  assumes "extractSql text = None \<or>
           (\<exists>s. extractSql text = Some s \<and> \<not> includes_str (toLowerCase s) ''select'')"
      and "\<forall>s. ExecuteQuery s \<notin> set tr"
  shows "(\<forall>s. ExecuteQuery s \<notin> set (snd (afterSqlResponse env q text tr)))
       \<and> (\<forall>b. fst (afterSqlResponse env q text tr) = Some (Response 200 b) \<longrightarrow>
              (\<exists>g i c. b = AnalysisBody g [] i c))"
  using assms
  by (auto simp: afterSqlResponse_def conditionalExecution_def insightGeneration_def fault_def
        Let_def split: sum.splits)

theorem no_execution_without_select:
  assumes "CompletionCall (SqlGeneration schema q) \<in> set (snd (analyze env req))"
      and "completion env (SqlGeneration schema q) = Inr (Some responseText)"
      and "extractSql responseText = None \<or>
           (\<exists>s. extractSql responseText = Some s \<and> \<not> sublist ''select'' (toLowerCase s))"
  shows "(\<forall>s. ExecuteQuery s \<notin> set (snd (analyze env req)))
       \<and> (\<forall>b. fst (analyze env req) = Some (Response 200 b) \<longrightarrow>
              (\<exists>g i c. b = AnalysisBody g [] i c))"
proof -
  from sql_call_reached[OF assms(1)] obtain tr where
    v: "validateQuestion (question req) = Valid q" and
    g: "getSchemaInfo env = (Fulfilled schema, tr)" by blast
  have a: "analyze env req =
           afterSqlResponse env q responseText (tr @ [CompletionCall (SqlGeneration schema q)])"
    by (rule analyze_staged[OF v g assms(2)])
  from getSchemaInfo_trace[OF g]
  have n: "\<forall>s. ExecuteQuery s \<notin> set (tr @ [CompletionCall (SqlGeneration schema q)])" by auto
  from assms(3) have e: "extractSql responseText = None \<or>
     (\<exists>s. extractSql responseText = Some s \<and> \<not> includes_str (toLowerCase s) ''select'')"
    by (simp add: includes_str_iff_sublist)
  show ?thesis unfolding a by (rule afterSqlResponse_no_execution[OF e n])
qed

theorem no_execution_without_select_witness:
  "extractSql ''I cannot answer that.'' = None
   \<and> (\<forall>s. ExecuteQuery s \<notin>
          set (snd (analyze (exampleEnv ''I cannot answer that.'' (Inr seedCustomers))
                      exampleQuestion)))
   \<and> (\<exists>g i c. fst (analyze (exampleEnv ''I cannot answer that.'' (Inr seedCustomers))
                      exampleQuestion) = Some (Response 200 (AnalysisBody g [] i c)))"
proof -
  have h1: "CompletionCall (SqlGeneration exampleSchema ''What are total sales by region?'') \<in>
            set (snd (analyze (exampleEnv ''I cannot answer that.'' (Inr seedCustomers))
                        exampleQuestion))"
    by code_simp
  have h2: "completion (exampleEnv ''I cannot answer that.'' (Inr seedCustomers))
              (SqlGeneration exampleSchema ''What are total sales by region?'') =
            Inr (Some ''I cannot answer that.'')"
    by (simp add: exampleEnv_def)
  have h3: "extractSql ''I cannot answer that.'' = None"
    by code_simp
  have answered: "fst (analyze (exampleEnv ''I cannot answer that.'' (Inr seedCustomers))
                      exampleQuestion) =
      Some (Response 200 (AnalysisBody None [] (Some ''Sales show an upward trend'')
                            (Some ''line'')))"
    by code_simp
  from no_execution_without_select[OF h1 h2 disjI1[OF h3]] h3 answered show ?thesis by blast
qed

section \<open>The chart-type heuristic\<close>

text \<open>
  Claim C4. The chart type is decided by the first keyword found, in the order
  \<open>trend\<close> (line), \<open>compare\<close> (bar), \<open>percentage\<close> or \<open>proportion\<close> (pie), and is
  \<open>bar\<close> when none occurs; the match is case-sensitive.
\<close>

theorem chart_type_priority:
  "suggestChartType (Some t) =
     (if sublist ''trend'' t then ''line''
      else if sublist ''compare'' t then ''bar''
      else if sublist ''percentage'' t \<or> sublist ''proportion'' t then ''pie''
      else ''bar'')
   \<and> suggestChartType (Some ''Sales show an upward trend'') = ''line''
   \<and> suggestChartType (Some ''Let's compare Q1 and Q2'') = ''bar''
   \<and> suggestChartType (Some ''Electronics account for 40% proportion of sales'') = ''pie''
   \<and> suggestChartType (Some ''Sales show an upward TREND'') = ''bar''"
proof -
  have general: "suggestChartType (Some t) =
     (if sublist ''trend'' t then ''line''
      else if sublist ''compare'' t then ''bar''
      else if sublist ''percentage'' t \<or> sublist ''proportion'' t then ''pie''
      else ''bar'')"
    by (cases "t = []") (simp_all add: suggestChartType_def includes_str_iff_sublist)
  have e1: "suggestChartType (Some ''Sales show an upward trend'') = ''line''" by code_simp
  have e2: "suggestChartType (Some ''Let's compare Q1 and Q2'') = ''bar''" by code_simp
  have e3: "suggestChartType (Some ''Electronics account for 40% proportion of sales'') = ''pie''"
    by code_simp
  have e4: "suggestChartType (Some ''Sales show an upward TREND'') = ''bar''" by code_simp
  from general e1 e2 e3 e4 show ?thesis by blast
qed

section \<open>Validation\<close>

text \<open>
  Claim C5. A request whose question is absent, or a string whose trimmed length is
  below 3, is answered 400 with the fixed message, and nothing is called: the trace is
  empty.
\<close>

theorem short_question_rejected:
  assumes "question req = JUndefined \<or> (\<exists>s. question req = JString s \<and> length (trim s) < 3)"
  shows "analyze env req =
     (Some (Response 400 (ErrorBody ''Please ask a complete business question'' None)), [])"
  using assms by (auto simp: analyze_def validateQuestion_def)

theorem short_question_rejected_witness:
  "length (trim ''  hi  '') < 3
   \<and> analyze (exampleEnv refusalReply (Inr [])) \<lparr>question = JString ''  hi  ''\<rparr> =
     (Some (Response 400 (ErrorBody ''Please ask a complete business question'' None)), [])"
proof -
  have h: "length (trim ''  hi  '') < 3"
    by code_simp
  then have "question \<lparr>question = JString ''  hi  ''\<rparr> = JUndefined \<or>
             (\<exists>s. question \<lparr>question = JString ''  hi  ''\<rparr> = JString s \<and> length (trim s) < 3)"
    by simp
  from short_question_rejected[OF this] h show ?thesis by blast
qed

section \<open>The fenced form\<close>

text \<open>
  Claim C6 says that the interior of a fenced sql block is returned as it is, before any
  inline match. In the text below the block has an empty interior and an inline
  fragment follows it: the extractor returns neither the empty interior nor the
  fragment, but the fenced text with its fences.
\<close>

theorem fenced_interior_lost_when_empty:
  "extractSql ''Query:\<newline>```sql\<newline>\<newline>```\<newline>or SELECT a FROM b'' = Some ''```sql\<newline>\<newline>```''"
  by code_simp

section \<open>A store error\<close>

text \<open>
  Claim C7. When the store rejects the generated SQL, the response is 500 with the
  message \<open>Error executing query\<close>; the response is the same whatever error the store
  gave.
\<close>

theorem store_error_is_generic:
  assumes "ExecuteQuery s \<in> set (snd (analyze env req))"
      and "run_query env s = Inl err"
  shows "fst (analyze env req) =
           Some (Response 500 (ErrorBody ''Error executing query''
             (if development env then Some (error_stack env ''Error executing query'')
              else None)))
       \<and> (\<forall>err'. fst (analyze (env\<lparr>run_query := (run_query env)(s := Inl err')\<rparr>) req) =
                  fst (analyze env req))"
proof -
  from execute_reached[OF assms(1)] obtain q schema tr reply where
    v: "validateQuestion (question req) = Valid q" and
    g: "getSchemaInfo env = (Fulfilled schema, tr)" and
    c: "completion env (SqlGeneration schema q) = Inr (Some reply)" and
    r: "\<not> includes_str reply ''Please ask about''" and
    x: "extractSql reply = Some s" "s \<noteq> []" "includes_str (toLowerCase s) ''select''"
    by blast
  have here: "fst (analyze env req) =
           Some (Response 500 (ErrorBody ''Error executing query''
             (if development env then Some (error_stack env ''Error executing query'')
              else None)))"
    by (rule store_error_staged[OF v g c r x assms(2)])
  have "fst (analyze (env\<lparr>run_query := (run_query env)(s := Inl err')\<rparr>) req) =
           fst (analyze env req)" for err'
  proof -
    let ?env' = "env\<lparr>run_query := (run_query env)(s := Inl err')\<rparr>"
    have g': "getSchemaInfo ?env' = (Fulfilled schema, tr)" using g by simp
    have c': "completion ?env' (SqlGeneration schema q) = Inr (Some reply)" using c by simp
    have q': "run_query ?env' s = Inl err'" by simp
    from store_error_staged[OF v g' c' r x q'] here show ?thesis by simp
  qed
  with here show ?thesis by blast
qed

theorem store_error_is_generic_witness:
  "fst (analyze (exampleEnv fencedReply (Inl storeError)) exampleQuestion) =
           Some (Response 500 (ErrorBody ''Error executing query'' None))
       \<and> (\<forall>err'. fst (analyze ((exampleEnv fencedReply (Inl storeError))
                     \<lparr>run_query := (run_query (exampleEnv fencedReply (Inl storeError)))
                        (''SELECT nme FROM customers'' := Inl err')\<rparr>) exampleQuestion) =
                  fst (analyze (exampleEnv fencedReply (Inl storeError)) exampleQuestion))"
proof -
  have h1: "ExecuteQuery ''SELECT nme FROM customers'' \<in>
            set (snd (analyze (exampleEnv fencedReply (Inl storeError)) exampleQuestion))"
    by code_simp
  have h2: "run_query (exampleEnv fencedReply (Inl storeError)) ''SELECT nme FROM customers'' =
            Inl storeError"
    by (simp add: exampleEnv_def)
  have h3: "\<not> development (exampleEnv fencedReply (Inl storeError))"
    by (simp add: exampleEnv_def)
  from store_error_is_generic[OF h1 h2] h3 show ?thesis by simp
qed

section \<open>Start-up twice\<close>

text \<open>
  A table without a key takes every row: whatever rows \<open>order_items\<close> has, start-up
  appends the three seed rows.
\<close>

lemma createTable_other:
  "t \<noteq> t' \<Longrightarrow> createTableIfNotExists t cols key s t' = s t'"
  by (simp add: createTableIfNotExists_def split: option.splits)

lemma createTable_existing:
  "s t = Some tbl \<Longrightarrow> createTableIfNotExists t cols key s t = Some tbl"
  by (simp add: createTableIfNotExists_def)

lemma insertOrIgnore_other:
  "t \<noteq> t' \<Longrightarrow> insertOrIgnore t new s t' = s t'"
  by (simp add: insertOrIgnore_def split: option.splits)

lemma insert_without_key:
  "foldl (insertRowOrIgnore None) existing new = existing @ new"
  by (induction new arbitrary: existing) simp_all

lemma insertOrIgnore_without_key:
  assumes "s t = Some tbl" and "primary_key tbl = None"
      and "list_all (\<lambda>r. length r = length (col_decls tbl)) new"
  shows "map_option table_rows (insertOrIgnore t new s t) = Some (table_rows tbl @ new)"
  using assms by (simp add: insertOrIgnore_def insert_without_key)

lemma order_items_grow:
  assumes "s ''order_items'' = Some tbl" and "primary_key tbl = None"
      and "length (col_decls tbl) = 4"
  shows "map_option table_rows (initializeDatabase s ''order_items'') =
           Some (table_rows tbl @ seedOrderItems)"
proof -
  have rows: "list_all (\<lambda>r. length r = length (col_decls tbl)) seedOrderItems"
    using assms(3) by (simp add: seedOrderItems_def)
  show ?thesis
    unfolding initializeDatabase_def Let_def
    by (rule insertOrIgnore_without_key[OF _ assms(2) rows])
       (simp add: insertOrIgnore_other createTable_other createTable_existing assms(1))
qed

text \<open>The three tables with a primary key keep their rows when start-up runs again.\<close>

lemma keyed_tables_unchanged:
  "map_option table_rows (initializeDatabase (initializeDatabase Map.empty) ''customers'') =
     map_option table_rows (initializeDatabase Map.empty ''customers'')"
  "map_option table_rows (initializeDatabase (initializeDatabase Map.empty) ''products'') =
     map_option table_rows (initializeDatabase Map.empty ''products'')"
  "map_option table_rows (initializeDatabase (initializeDatabase Map.empty) ''orders'') =
     map_option table_rows (initializeDatabase Map.empty ''orders'')"
  by code_simp+

lemma order_items_once:
  "map_option table_rows (initializeDatabase Map.empty ''order_items'') = Some seedOrderItems"
  by code_simp

lemma order_items_twice:
  "map_option table_rows (initializeDatabase (initializeDatabase Map.empty) ''order_items'') =
     Some (seedOrderItems @ seedOrderItems)"
  by code_simp

text \<open>
  Claim C8 says that a second start-up leaves the store unchanged. \<open>order_items\<close> has
  no key, so \<open>INSERT OR IGNORE\<close> never skips its rows: after start-up on an empty store
  the table has the three seed rows, after a second start-up it has them twice, and the
  store has changed.
\<close>

theorem second_initialization_duplicates_order_items:
  "map_option table_rows (initializeDatabase Map.empty ''order_items'') = Some seedOrderItems
   \<and> map_option table_rows (initializeDatabase (initializeDatabase Map.empty) ''order_items'') =
       Some (seedOrderItems @ seedOrderItems)
   \<and> initializeDatabase (initializeDatabase Map.empty) \<noteq> initializeDatabase Map.empty"
proof -
  have "initializeDatabase (initializeDatabase Map.empty) \<noteq> initializeDatabase Map.empty"
  proof
    assume "initializeDatabase (initializeDatabase Map.empty) = initializeDatabase Map.empty"
    then have "map_option table_rows
                 (initializeDatabase (initializeDatabase Map.empty) ''order_items'') =
               map_option table_rows (initializeDatabase Map.empty ''order_items'')"
      by simp
    then have "seedOrderItems @ seedOrderItems = seedOrderItems"
      unfolding order_items_once order_items_twice by simp
    then show False by (simp add: seedOrderItems_def)
  qed
  with order_items_once order_items_twice show ?thesis by blast
qed

section \<open>The empty fenced block\<close>

text \<open>
  Claim C9. For a text whose first fenced sql block has an empty interior (the opening
  fence directly followed by the closing fence, with any text before and after, and no
  opening fence starting earlier), the fenced pattern matches with group 1 present and
  empty; the extractor does not return the empty interior: the empty group counts as
  absent and the whole fenced match, fences included, is returned.
\<close>

theorem empty_interior_returns_fence:
  assumes "\<forall>i<length pre. \<not> prefix fenceOpen (drop i (pre @ fenceOpen @ fenceClose @ post))"
  shows "firstMatch matchFencedAt (pre @ fenceOpen @ fenceClose @ post) =
           Some \<lparr>whole = fenceOpen @ fenceClose, group1 = Some []\<rparr>
       \<and> extractSql (pre @ fenceOpen @ fenceClose @ post) = Some (fenceOpen @ fenceClose)
       \<and> extractSql (pre @ fenceOpen @ fenceClose @ post) \<noteq> Some []"
proof -
  have inside: "\<forall>i<length ([]::string). \<not> prefix fenceClose (drop i ([] @ fenceClose @ post))"
    by simp
  have open_first: "\<forall>i<length pre.
      \<not> prefix fenceOpen (drop i (pre @ fenceOpen @ [] @ fenceClose @ post))"
    using assms by simp
  from firstMatch_fenced_block[OF open_first inside]
  have m: "firstMatch matchFencedAt (pre @ fenceOpen @ fenceClose @ post) =
           Some \<lparr>whole = fenceOpen @ fenceClose, group1 = Some []\<rparr>"
    by simp
  from extractSql_first_block[OF open_first inside]
  have r: "extractSql (pre @ fenceOpen @ fenceClose @ post) = Some (fenceOpen @ fenceClose)"
    by simp
  have "fenceOpen @ fenceClose \<noteq> []" by (simp add: fenceOpen_def)
  with m r show ?thesis by simp
qed

theorem empty_interior_returns_fence_witness:
  "extractSql ''```sql\<newline>\<newline>```'' = Some ''```sql\<newline>\<newline>```''
   \<and> extractSql ''```sql\<newline>\<newline>```'' \<noteq> Some []
   \<and> extractSql ''Here is the query:\<newline>```sql\<newline>\<newline>```\<newline>It returns nothing.'' =
       Some ''```sql\<newline>\<newline>```''
   \<and> extractSql ''Here is the query:\<newline>```sql\<newline>\<newline>```\<newline>It returns nothing.'' \<noteq>
       Some []"
proof -
  have bare: "\<forall>i<length ([]::string).
      \<not> prefix fenceOpen (drop i ([] @ fenceOpen @ fenceClose @ []))"
    by simp
  have around: "\<forall>i<length ''Here is the query:\<newline>''. \<not> prefix fenceOpen
            (drop i (''Here is the query:\<newline>'' @ fenceOpen @ fenceClose @
                     ''\<newline>It returns nothing.''))"
    by (rule all_below) code_simp
  from empty_interior_returns_fence[OF bare] empty_interior_returns_fence[OF around]
  show ?thesis by (simp add: fenceOpen_def fenceClose_def)
qed

section \<open>An empty catalog\<close>

text \<open>
  Validation comes before the schema introspection: with an empty catalog the question
  \<open>hi\<close> is still answered, with 400.
\<close>

theorem empty_catalog_short_question_answered:
  "catalog ((exampleEnv refusalReply (Inr []))\<lparr>catalog := Inr []\<rparr>) = Inr []
   \<and> fst (analyze ((exampleEnv refusalReply (Inr []))\<lparr>catalog := Inr []\<rparr>)
            \<lparr>question = JString ''hi''\<rparr>) =
       Some (Response 400 (ErrorBody ''Please ask a complete business question'' None))"
proof -
  have "fst (analyze ((exampleEnv refusalReply (Inr []))\<lparr>catalog := Inr []\<rparr>)
            \<lparr>question = JString ''hi''\<rparr>) =
       Some (Response 400 (ErrorBody ''Please ask a complete business question'' None))"
    by code_simp
  then show ?thesis by simp
qed

text \<open>
  Claim C10, amended. When the catalog lists no table, no callback runs, the counter is
  never compared and the promise of the schema introspection stays pending; a request
  that has passed validation (its question is a string of trimmed length 3 or more)
  waits for it and is never answered.
\<close>

theorem empty_catalog_never_answers:
  assumes "catalog env = Inr []" and "question req = JString s" and "3 \<le> length (trim s)"
  shows "fst (getSchemaInfo env) = Pending \<and> fst (analyze env req) = None"
proof -
  have g: "getSchemaInfo env = (Pending, [CatalogQuery])"
    using assms(1) by (simp add: getSchemaInfo_def)
  from assms(3) have "s \<noteq> []" by auto
  with assms(2,3) have v: "validateQuestion (question req) = Valid s"
    by (simp add: validateQuestion_def)
  show ?thesis using g v by (simp add: analyze_def)
qed

theorem empty_catalog_never_answers_witness:
  "3 \<le> length (trim ''What are total sales by region?'')
   \<and> fst (getSchemaInfo ((exampleEnv refusalReply (Inr []))\<lparr>catalog := Inr []\<rparr>)) = Pending
   \<and> fst (analyze ((exampleEnv refusalReply (Inr []))\<lparr>catalog := Inr []\<rparr>) exampleQuestion) = None"
proof -
  have h1: "catalog ((exampleEnv refusalReply (Inr []))\<lparr>catalog := Inr []\<rparr>) = Inr []"
    by simp
  have h2: "question exampleQuestion = JString ''What are total sales by region?''"
    by (simp add: exampleQuestion_def)
  have h3: "3 \<le> length (trim ''What are total sales by region?'')"
    by code_simp
  from empty_catalog_never_answers[OF h1 h2 h3] h3 show ?thesis by blast
qed

end
